theory Spec2Isabelle
  imports Main "HOL-Library.Word"
begin

unbundle bit_operations_syntax

section \<open>Data model of \<^verbatim>\<open>mqtt_log.py\<close>\<close>

text \<open>
  Python \<^verbatim>\<open>bytes\<close> are lists of 8-bit words; a Python \<^verbatim>\<open>str\<close> is a list of
  Unicode code points. The tuple that \<^verbatim>\<open>on_message\<close> puts on the queue,
  \<^verbatim>\<open>(topic, payload, datetime, qos, retain)\<close>, is kept as a tuple.
\<close>

type_synonym byte = "8 word"
type_synonym str = "nat list"
type_synonym message = "str \<times> str \<times> str \<times> int \<times> bool"

record mqtt_msg =
  msg_topic :: str
  msg_payload :: "byte list"
  msg_qos :: int
  msg_retain :: bool

record args =
  host :: string
  port :: int
  username :: "string option"
  password :: "string option"
  db :: string
  json :: string

text \<open>
  \<^verbatim>\<open>except Exception\<close> catches every exception but the ones outside the
  \<^verbatim>\<open>Exception\<close> hierarchy; the one of those that reaches this program is
  \<^verbatim>\<open>KeyboardInterrupt\<close>.
\<close>

datatype exn = Exception string | KeyboardInterrupt

datatype io_outcome = Succeeds | Raises exn

datatype level = INFO | WARNING | ERROR

datatype log_msg =
    Received str str
  | NonUtf8 str
  | SqliteError exn
  | JsonError exn
  | ConnectedToBroker
  | ConnectionFailed int
  | DisconnectedFromBroker
  | UnexpectedDisconnection int
  | SettingUp
  | ConnectingTo string int
  | Listening
  | ShuttingDown
  | ShutdownComplete

datatype effect =
    Log level log_msg
  | SqliteConnect string
  | CreateTable
  | ExecuteMany "message list"
  | Commit
  | OpenAppendWrite string string
  | Sleep nat
  | NewClient
  | UsernamePwSet string string
  | Connect string int nat
  | Subscribe string
  | Reconnect
  | LoopStart
  | LoopStop
  | Disconnect
  | CursorClose
  | ConnClose

text \<open>
  The state the program acts on: the module-level queue, the two sinks (the table's
  committed rows and the rows of the open transaction; the text of the JSON file), the
  ordered trace of every external call and log line, and the outcomes the environment
  gives to the calls that can fail, in the order they are made (a call made after the
  list is used up succeeds).
\<close>

record world =
  message_queue :: "message list"
  db_committed :: "message list"
  db_pending :: "message list"
  json_file :: string
  effects :: "effect list"
  io :: "io_outcome list"

definition emit :: "effect \<Rightarrow> world \<Rightarrow> world" where
  "emit e w = w\<lparr>effects := effects w @ [e]\<rparr>"

definition perform :: "effect \<Rightarrow> world \<Rightarrow> io_outcome \<times> world" where
  "perform e w =
     (case io w of
        [] \<Rightarrow> (Succeeds, emit e w)
      | x # xs \<Rightarrow> (x, emit e (w\<lparr>io := xs\<rparr>)))"

section \<open>Record codec: \<^verbatim>\<open>bytes.decode('utf-8')\<close> and \<^verbatim>\<open>base64.b64encode\<close>\<close>

text \<open>
  Strict UTF-8 decoding as Python does it: shortest form only, no surrogates, nothing
  above U+10FFFF. \<open>utf8_char b0 bs\<close> decodes the code point that starts with \<open>b0\<close>
  and gives the number of continuation bytes it used.
\<close>

definition is_cont :: "byte \<Rightarrow> bool" where
  "is_cont b = (0x80 \<le> b \<and> b \<le> 0xBF)"

definition cont_bits :: "byte \<Rightarrow> nat" where
  "cont_bits b = unat (b AND 0x3F)"

definition utf8_char :: "byte \<Rightarrow> byte list \<Rightarrow> (nat \<times> nat) option" where
  "utf8_char b0 bs =
     (if b0 < 0x80 then Some (unat b0, 0)
      else if b0 < 0xC2 then None
      else if b0 < 0xE0 then
        (case bs of
           b1 # _ \<Rightarrow>
             if is_cont b1 then Some (unat (b0 AND 0x1F) * 64 + cont_bits b1, 1) else None
         | _ \<Rightarrow> None)
      else if b0 < 0xF0 then
        (case bs of
           b1 # b2 # _ \<Rightarrow>
             if is_cont b1 \<and> is_cont b2
                \<and> (if b0 = 0xE0 then 0xA0 \<le> b1 else True)
                \<and> (if b0 = 0xED then b1 \<le> 0x9F else True)
             then Some (unat (b0 AND 0x0F) * 4096 + cont_bits b1 * 64 + cont_bits b2, 2)
             else None
         | _ \<Rightarrow> None)
      else if b0 < 0xF5 then
        (case bs of
           b1 # b2 # b3 # _ \<Rightarrow>
             if is_cont b1 \<and> is_cont b2 \<and> is_cont b3
                \<and> (if b0 = 0xF0 then 0x90 \<le> b1 else True)
                \<and> (if b0 = 0xF4 then b1 \<le> 0x8F else True)
             then Some (unat (b0 AND 0x07) * 262144 + cont_bits b1 * 4096
                        + cont_bits b2 * 64 + cont_bits b3, 3)
             else None
         | _ \<Rightarrow> None)
      else None)"

fun utf8_decode :: "byte list \<Rightarrow> str option" where
  "utf8_decode [] = Some []"
| "utf8_decode (b0 # bs) =
     (case utf8_char b0 bs of
        None \<Rightarrow> None
      | Some (cp, n) \<Rightarrow> map_option ((#) cp) (utf8_decode (drop n bs)))"

text \<open>
  Base64 with the standard alphabet and \<open>=\<close> padding: three bytes become four
  characters, each the alphabet's entry for six bits; a last group of one or two bytes is
  filled with zero bits and padded.
\<close>

definition b64_alphabet :: "byte list" where
  "b64_alphabet = map of_char
     ''ABCDEFGHIJKLMNOPQRSTUVWXYZabcdefghijklmnopqrstuvwxyz0123456789+/''"

definition b64_char :: "byte \<Rightarrow> byte" where
  "b64_char s = b64_alphabet ! unat s"

definition b64_pad :: byte where
  "b64_pad = of_char CHR ''=''"

definition sextet0 :: "byte \<Rightarrow> byte" where
  "sextet0 a = drop_bit 2 a"

definition sextet1 :: "byte \<Rightarrow> byte \<Rightarrow> byte" where
  "sextet1 a b = push_bit 4 (a AND 3) OR drop_bit 4 b"

definition sextet2 :: "byte \<Rightarrow> byte \<Rightarrow> byte" where
  "sextet2 b c = push_bit 2 (b AND 15) OR drop_bit 6 c"

definition sextet3 :: "byte \<Rightarrow> byte" where
  "sextet3 c = c AND 63"

fun b64encode :: "byte list \<Rightarrow> byte list" where
  "b64encode [] = []"
| "b64encode [a] =
     [b64_char (sextet0 a), b64_char (sextet1 a 0), b64_pad, b64_pad]"
| "b64encode [a, b] =
     [b64_char (sextet0 a), b64_char (sextet1 a b), b64_char (sextet2 b 0), b64_pad]"
| "b64encode (a # b # c # rest) =
     [b64_char (sextet0 a), b64_char (sextet1 a b), b64_char (sextet2 b c),
      b64_char (sextet3 c)]
     @ b64encode rest"

text \<open>
  The inverse transform a reader of the stored text applies
  (\<^verbatim>\<open>base64.b64decode\<close> on a \<^verbatim>\<open>str\<close>): the text is taken as ASCII, and every
  group of four characters gives back up to three bytes. Text that is not canonical
  base64 is refused.
\<close>

fun index_of :: "'a \<Rightarrow> 'a list \<Rightarrow> nat option" where
  "index_of x [] = None"
| "index_of x (y # ys) = (if x = y then Some 0 else map_option Suc (index_of x ys))"

definition b64_index :: "byte \<Rightarrow> byte option" where
  "b64_index c = map_option of_nat (index_of c b64_alphabet)"

definition octet0 :: "byte \<Rightarrow> byte \<Rightarrow> byte" where
  "octet0 i0 i1 = push_bit 2 i0 OR drop_bit 4 i1"

definition octet1 :: "byte \<Rightarrow> byte \<Rightarrow> byte" where
  "octet1 i1 i2 = push_bit 4 i1 OR drop_bit 2 i2"

definition octet2 :: "byte \<Rightarrow> byte \<Rightarrow> byte" where
  "octet2 i2 i3 = push_bit 6 i2 OR i3"

fun b64decode_bytes :: "byte list \<Rightarrow> byte list option" where
  "b64decode_bytes [] = Some []"
| "b64decode_bytes (c0 # c1 # c2 # c3 # rest) =
     (if rest = [] \<and> c2 = b64_pad \<and> c3 = b64_pad then
        (case (b64_index c0, b64_index c1) of
           (Some i0, Some i1) \<Rightarrow> Some [octet0 i0 i1]
         | _ \<Rightarrow> None)
      else if rest = [] \<and> c3 = b64_pad then
        (case (b64_index c0, b64_index c1, b64_index c2) of
           (Some i0, Some i1, Some i2) \<Rightarrow> Some [octet0 i0 i1, octet1 i1 i2]
         | _ \<Rightarrow> None)
      else
        (case (b64_index c0, b64_index c1, b64_index c2, b64_index c3) of
           (Some i0, Some i1, Some i2, Some i3) \<Rightarrow>
             map_option ((@) [octet0 i0 i1, octet1 i1 i2, octet2 i2 i3])
               (b64decode_bytes rest)
         | _ \<Rightarrow> None))"
| "b64decode_bytes _ = None"

fun ascii_encode :: "str \<Rightarrow> byte list option" where
  "ascii_encode [] = Some []"
| "ascii_encode (c # cs) =
     (if c < 128 then map_option ((#) (of_nat c)) (ascii_encode cs) else None)"

definition b64decode :: "str \<Rightarrow> byte list option" where
  "b64decode s = Option.bind (ascii_encode s) b64decode_bytes"

text \<open>
  \<^verbatim>\<open>on_message\<close>. The timestamp \<^verbatim>\<open>datetime.now().strftime(...)\<close> is the input
  \<open>now\<close>. \<open>decode_payload\<close> is the \<^verbatim>\<open>try\<close>/\<^verbatim>\<open>except UnicodeDecodeError\<close> block: the
  second \<^verbatim>\<open>.decode('utf-8')\<close>, of the base64 bytes, is outside the \<^verbatim>\<open>try\<close>, so a
  failure there would leave the callback with the exception.
\<close>

definition decode_payload :: "byte list \<Rightarrow> (str \<times> bool) option" where
  "decode_payload p =
     (case utf8_decode p of
        Some t \<Rightarrow> Some (t, False)
      | None \<Rightarrow> map_option (\<lambda>t. (t, True)) (utf8_decode (b64encode p)))"

definition on_message :: "mqtt_msg \<Rightarrow> str \<Rightarrow> world \<Rightarrow> exn option \<times> world" where
  "on_message msg now w =
     (case decode_payload (msg_payload msg) of
        None \<Rightarrow> (Some (Exception ''UnicodeDecodeError''), w)
      | Some (payload, fallback) \<Rightarrow>
          let w1 = (if fallback then emit (Log WARNING (NonUtf8 (msg_topic msg))) w else w);
              w2 = emit (Log INFO (Received payload (msg_topic msg))) w1
          in (None,
              w2\<lparr>message_queue := message_queue w2 @
                   [(msg_topic msg, payload, now, msg_qos msg, msg_retain msg)]\<rparr>))"

section \<open>Receipt buffer\<close>

text \<open>
  The persister's drain loop, \<^verbatim>\<open>while not message_queue.empty():
  batch_messages.append(message_queue.get())\<close>, run on the queue as it stands:
  \<open>drain batch_messages queue\<close> gives the batch and the queue that is left.
\<close>

fun drain :: "message list \<Rightarrow> message list \<Rightarrow> message list \<times> message list" where
  "drain batch_messages [] = (batch_messages, [])"
| "drain batch_messages (m # q) = drain (batch_messages @ [m]) q"

text \<open>
  The same loop with the delivery thread running beside it. \<^verbatim>\<open>Put\<close> is
  \<^verbatim>\<open>message_queue.put\<close> in \<^verbatim>\<open>on_message\<close>; \<^verbatim>\<open>LoopTest\<close> is one evaluation of the
  loop condition by the persister, followed by the \<^verbatim>\<open>get\<close> and \<^verbatim>\<open>append\<close> of the
  loop body when the queue is not empty; when it is empty the drain is over, its batch is
  the drain's result, and the next tick starts from \<^verbatim>\<open>batch_messages = []\<close>.
\<close>

record buffer =
  queue :: "message list"
  batch_messages :: "message list"
  drains :: "message list list"

datatype action = Put message | LoopTest

fun buffer_step :: "buffer \<Rightarrow> action \<Rightarrow> buffer" where
  "buffer_step s (Put m) = s\<lparr>queue := queue s @ [m]\<rparr>"
| "buffer_step s LoopTest =
     (case queue s of
        [] \<Rightarrow> s\<lparr>batch_messages := [], drains := drains s @ [batch_messages s]\<rparr>
      | m # q \<Rightarrow> s\<lparr>queue := q, batch_messages := batch_messages s @ [m]\<rparr>)"

definition run_buffer :: "action list \<Rightarrow> buffer \<Rightarrow> buffer" where
  "run_buffer acts s = foldl buffer_step s acts"

fun puts :: "action list \<Rightarrow> message list" where
  "puts [] = []"
| "puts (Put m # acts) = m # puts acts"
| "puts (LoopTest # acts) = puts acts"

definition empty_buffer :: buffer where
  "empty_buffer = \<lparr>queue = [], batch_messages = [], drains = []\<rparr>"

section \<open>JSON lines: \<^verbatim>\<open>json.dumps\<close> of the message dictionary\<close>

text \<open>
  \<^verbatim>\<open>json.dumps\<close> with its defaults: \<^verbatim>\<open>ensure_ascii\<close> escapes every character
  outside the printable ASCII range, items are joined by \<^verbatim>\<open>", "\<close> and keys by
  \<^verbatim>\<open>": "\<close>. The dictionary is kept as the list of its items, in insertion order.
\<close>

datatype jvalue = JStr str | JInt int | JBool bool

definition hex_digit :: "nat \<Rightarrow> char" where
  "hex_digit n = ''0123456789abcdef'' ! n"

definition hex4 :: "nat \<Rightarrow> string" where
  "hex4 n = [hex_digit (n div 4096 mod 16), hex_digit (n div 256 mod 16),
             hex_digit (n div 16 mod 16), hex_digit (n mod 16)]"

definition backslash :: char where
  "backslash = CHR 0x5C"

definition json_escape :: "nat \<Rightarrow> string" where
  "json_escape c =
     (if c = 0x5C then [backslash, backslash]
      else if c = 0x22 then [backslash, CHR 0x22]
      else if c = 0x08 then [backslash, CHR ''b'']
      else if c = 0x0C then [backslash, CHR ''f'']
      else if c = 0x0A then [backslash, CHR ''n'']
      else if c = 0x0D then [backslash, CHR ''r'']
      else if c = 0x09 then [backslash, CHR ''t'']
      else if 0x20 \<le> c \<and> c \<le> 0x7E then [char_of c]
      else if c < 0x10000 then [backslash, CHR ''u''] @ hex4 c
      else
        (let n = c - 0x10000;
             s1 = 0xD800 OR (drop_bit 10 n AND 0x3FF);
             s2 = 0xDC00 OR (n AND 0x3FF)
         in [backslash, CHR ''u''] @ hex4 s1 @ [backslash, CHR ''u''] @ hex4 s2))"

definition json_str :: "str \<Rightarrow> string" where
  "json_str s = [CHR 0x22] @ concat (map json_escape s) @ [CHR 0x22]"

function nat_repr :: "nat \<Rightarrow> string" where
  "nat_repr n =
     (if n < 10 then [char_of (48 + n)]
      else nat_repr (n div 10) @ [char_of (48 + n mod 10)])"
  by pat_completeness auto
termination
  by (relation "measure id") auto

definition int_repr :: "int \<Rightarrow> string" where
  "int_repr i = (if i < 0 then CHR ''-'' # nat_repr (nat (- i)) else nat_repr (nat i))"

fun json_value :: "jvalue \<Rightarrow> string" where
  "json_value (JStr s) = json_str s"
| "json_value (JInt i) = int_repr i"
| "json_value (JBool b) = (if b then ''true'' else ''false'')"

definition json_item :: "string \<times> jvalue \<Rightarrow> string" where
  "json_item kv = json_str (map of_char (fst kv)) @ '': '' @ json_value (snd kv)"

fun json_items :: "(string \<times> jvalue) list \<Rightarrow> string" where
  "json_items [] = []"
| "json_items [kv] = json_item kv"
| "json_items (kv # rest) = json_item kv @ '', '' @ json_items rest"

definition json_dumps :: "(string \<times> jvalue) list \<Rightarrow> string" where
  "json_dumps d = ''{'' @ json_items d @ ''}''"

definition newline :: char where
  "newline = CHR 0x0A"

section \<open>The two sinks\<close>

text \<open>
  \<open>except_Exception\<close> is an \<^verbatim>\<open>except Exception as e: logger.error(...)\<close> clause:
  it ends the function normally with one error line, and lets what is not an
  \<^verbatim>\<open>Exception\<close> through.
\<close>

definition except_Exception :: "(exn \<Rightarrow> log_msg) \<Rightarrow> exn \<Rightarrow> world \<Rightarrow> exn option \<times> world" where
  "except_Exception msg e w =
     (case e of
        Exception _ \<Rightarrow> (None, emit (Log ERROR (msg e)) w)
      | KeyboardInterrupt \<Rightarrow> (Some e, w))"

text \<open>
  \<^verbatim>\<open>cursor.executemany\<close> adds the rows to the connection's open transaction, and
  \<^verbatim>\<open>conn.commit\<close> makes the rows of the open transaction part of the table. A call
  that raises changes nothing.
\<close>

definition save_to_sqlite_batch :: "message list \<Rightarrow> world \<Rightarrow> exn option \<times> world" where
  "save_to_sqlite_batch messages w =
     (case perform (ExecuteMany messages) w of
        (Raises e, w1) \<Rightarrow> except_Exception SqliteError e w1
      | (Succeeds, w1) \<Rightarrow>
          (case perform Commit (w1\<lparr>db_pending := db_pending w1 @ messages\<rparr>) of
             (Raises e, w2) \<Rightarrow> except_Exception SqliteError e w2
           | (Succeeds, w2) \<Rightarrow>
               (None, w2\<lparr>db_committed := db_committed w2 @ db_pending w2,
                          db_pending := []\<rparr>)))"

definition json_line :: "message \<Rightarrow> string" where
  "json_line m =
     (case m of (topic, payload, datetime, qos, retain) \<Rightarrow>
        json_dumps [(''topic'', JStr topic), (''payload'', JStr payload),
                    (''datetime'', JStr datetime), (''qos'', JInt qos),
                    (''retain'', JBool retain)]
        @ [newline])"

text \<open>
  \<^verbatim>\<open>with open(args.json, 'a') as f: f.write(...)\<close> is one call on the file: it
  puts the text after what the file holds, or raises and leaves the file as it was.
\<close>

definition save_to_json :: "args \<Rightarrow> message \<Rightarrow> world \<Rightarrow> exn option \<times> world" where
  "save_to_json cfg m w =
     (case perform (OpenAppendWrite (json cfg) (json_line m)) w of
        (Raises e, w1) \<Rightarrow> except_Exception JsonError e w1
      | (Succeeds, w1) \<Rightarrow> (None, w1\<lparr>json_file := json_file w1 @ json_line m\<rparr>))"

section \<open>Broker callbacks and client set-up\<close>

definition on_connect :: "int \<Rightarrow> world \<Rightarrow> world" where
  "on_connect reason_code w =
     (if reason_code = 0
      then emit (Subscribe ''#'') (emit (Log INFO ConnectedToBroker) w)
      else emit (Log ERROR (ConnectionFailed reason_code)) w)"

definition on_disconnect :: "int \<Rightarrow> world \<Rightarrow> exn option \<times> world" where
  "on_disconnect reason_code w =
     (let w1 = emit (Log WARNING DisconnectedFromBroker) w in
      if reason_code \<noteq> 0 then
        (let w2 = emit (Log WARNING (UnexpectedDisconnection reason_code)) w1;
             w3 = emit (Sleep 5) w2
         in case perform Reconnect w3 of
              (Raises e, w4) \<Rightarrow> (Some e, w4)
            | (Succeeds, w4) \<Rightarrow> (None, w4))
      else (None, w1))"

text \<open>
  \<^verbatim>\<open>if args.username and args.password\<close>: \<^verbatim>\<open>None\<close> and the empty string are
  false.
\<close>

definition truthy :: "string option \<Rightarrow> bool" where
  "truthy s = (case s of None \<Rightarrow> False | Some t \<Rightarrow> t \<noteq> [])"

definition setup_mqtt :: "args \<Rightarrow> world \<Rightarrow> exn option \<times> world" where
  "setup_mqtt cfg w =
     (let w1 = emit NewClient w;
          w2 = emit (Log INFO SettingUp) w1;
          w3 = emit (Log INFO (ConnectingTo (host cfg) (port cfg))) w2;
          w4 = (case (username cfg, password cfg) of
                  (Some u, Some p) \<Rightarrow>
                    if truthy (Some u) \<and> truthy (Some p) then emit (UsernamePwSet u p) w3
                    else w3
                | _ \<Rightarrow> w3)
      in case perform (Connect (host cfg) (port cfg) 60) w4 of
           (Raises e, w5) \<Rightarrow> (Some e, w5)
         | (Succeeds, w5) \<Rightarrow> (None, w5))"

definition setup_sqlite :: "args \<Rightarrow> world \<Rightarrow> exn option \<times> world" where
  "setup_sqlite cfg w =
     (case perform (SqliteConnect (db cfg)) w of
        (Raises e, w1) \<Rightarrow> (Some e, w1)
      | (Succeeds, w1) \<Rightarrow>
          (case perform CreateTable w1 of
             (Raises e, w2) \<Rightarrow> (Some e, w2)
           | (Succeeds, w2) \<Rightarrow>
               (case perform Commit w2 of
                  (Raises e, w3) \<Rightarrow> (Some e, w3)
                | (Succeeds, w3) \<Rightarrow>
                    (None, w3\<lparr>db_committed := db_committed w3 @ db_pending w3,
                               db_pending := []\<rparr>))))"

section \<open>The main program\<close>

text \<open>
  The body of \<^verbatim>\<open>if batch_messages:\<close>: the batch insert, then \<^verbatim>\<open>save_to_json\<close> for
  every message of the batch.
\<close>

fun save_each_to_json :: "args \<Rightarrow> message list \<Rightarrow> world \<Rightarrow> exn option \<times> world" where
  "save_each_to_json cfg [] w = (None, w)"
| "save_each_to_json cfg (m # ms) w =
     (case save_to_json cfg m w of
        (Some e, w1) \<Rightarrow> (Some e, w1)
      | (None, w1) \<Rightarrow> save_each_to_json cfg ms w1)"

definition persist_batch :: "args \<Rightarrow> message list \<Rightarrow> world \<Rightarrow> exn option \<times> world" where
  "persist_batch cfg batch w =
     (if batch \<noteq> [] then
        (case save_to_sqlite_batch batch w of
           (Some e, w1) \<Rightarrow> (Some e, w1)
         | (None, w1) \<Rightarrow> save_each_to_json cfg batch w1)
      else (None, w))"

text \<open>One turn of \<^verbatim>\<open>while True:\<close>, up to and including \<^verbatim>\<open>time.sleep(1)\<close>.\<close>

definition loop_iteration :: "args \<Rightarrow> world \<Rightarrow> exn option \<times> world" where
  "loop_iteration cfg w =
     (case drain [] (message_queue w) of
        (batch, q) \<Rightarrow>
          (case persist_batch cfg batch (w\<lparr>message_queue := q\<rparr>) of
             (Some e, w1) \<Rightarrow> (Some e, w1)
           | (None, w1) \<Rightarrow> (None, emit (Sleep 1) w1)))"

text \<open>
  How the process stands: still in the loop, or ended with an exit status. An exception
  nothing catches ends the process with a status that is not 0.
\<close>

datatype status = Running | Exited int

definition uncaught :: "exn \<Rightarrow> int" where
  "uncaught e = (case e of Exception _ \<Rightarrow> 1 | KeyboardInterrupt \<Rightarrow> 130)"

text \<open>
  The \<^verbatim>\<open>finally\<close> block. Closing the connection drops the rows of a transaction that
  was never committed.
\<close>

definition finally_block :: "world \<Rightarrow> world" where
  "finally_block w =
     (let w1 = emit LoopStop w;
          w2 = emit Disconnect w1;
          w3 = emit CursorClose w2;
          w4 = emit ConnClose (w3\<lparr>db_pending := []\<rparr>)
      in emit (Log INFO ShutdownComplete) w4)"

text \<open>
  The \<^verbatim>\<open>try\<close> statement once the loop has raised \<open>e\<close>: \<^verbatim>\<open>KeyboardInterrupt\<close> is
  caught and logged, the \<^verbatim>\<open>finally\<close> block runs in every case, and the script ends
  there.
\<close>

definition leave_loop :: "exn \<Rightarrow> world \<Rightarrow> status \<times> world" where
  "leave_loop e w =
     (case e of
        KeyboardInterrupt \<Rightarrow> (Exited 0, finally_block (emit (Log INFO ShuttingDown) w))
      | Exception _ \<Rightarrow> (Exited (uncaught e), finally_block w))"

text \<open>
  What happens while the loop runs, in the order it happens: a message delivered to
  \<^verbatim>\<open>on_message\<close> (with the clock's reading), a connection acknowledgement, a
  disconnection, one turn of the loop, or an interrupt signal arriving while the main
  thread sleeps. An exception that leaves a callback stays in the client's network thread.
\<close>

datatype event =
    Deliver mqtt_msg str
  | ConnAck int
  | Disconnected int
  | Iterate
  | Sigint

fun main_loop :: "args \<Rightarrow> event list \<Rightarrow> world \<Rightarrow> status \<times> world" where
  "main_loop cfg [] w = (Running, w)"
| "main_loop cfg (Deliver msg now # evs) w = main_loop cfg evs (snd (on_message msg now w))"
| "main_loop cfg (ConnAck rc # evs) w = main_loop cfg evs (on_connect rc w)"
| "main_loop cfg (Disconnected rc # evs) w = main_loop cfg evs (snd (on_disconnect rc w))"
| "main_loop cfg (Iterate # evs) w =
     (case loop_iteration cfg w of
        (Some e, w1) \<Rightarrow> leave_loop e w1
      | (None, w1) \<Rightarrow> main_loop cfg evs w1)"
| "main_loop cfg (Sigint # evs) w = leave_loop KeyboardInterrupt w"

definition main :: "args \<Rightarrow> event list \<Rightarrow> world \<Rightarrow> status \<times> world" where
  "main cfg evs w =
     (case setup_sqlite cfg w of
        (Some e, w1) \<Rightarrow> (Exited (uncaught e), w1)
      | (None, w1) \<Rightarrow>
          (case setup_mqtt cfg w1 of
             (Some e, w2) \<Rightarrow> (Exited (uncaught e), w2)
           | (None, w2) \<Rightarrow>
               main_loop cfg evs (emit (Log INFO Listening) (emit LoopStart w2))))"

text \<open>The calls and log lines a step added to the trace.\<close>

definition new_effects :: "world \<Rightarrow> world \<Rightarrow> effect list" where
  "new_effects w w' = drop (length (effects w)) (effects w')"

definition fresh :: world where
  "fresh = \<lparr>message_queue = [], db_committed = [], db_pending = [], json_file = [],
            effects = [], io = []\<rparr>"

text \<open>
  The tuples a run of events hands to the queue, in the order of delivery: for every
  delivered message, what \<^verbatim>\<open>on_message\<close> puts on an empty queue.
\<close>

fun delivered :: "event list \<Rightarrow> message list" where
  "delivered [] = []"
| "delivered (Deliver msg now # evs) =
     message_queue (snd (on_message msg now fresh)) @ delivered evs"
| "delivered (_ # evs) = delivered evs"

text \<open>
  What is read off a trace: the calls made on the sinks (everything but log lines), the
  error lines, and, of the outcomes the environment gave, the ones that were failures.
\<close>

fun is_log :: "effect \<Rightarrow> bool" where
  "is_log (Log _ _) = True"
| "is_log _ = False"

fun is_error_log :: "effect \<Rightarrow> bool" where
  "is_error_log (Log ERROR _) = True"
| "is_error_log _ = False"

definition sink_calls :: "effect list \<Rightarrow> effect list" where
  "sink_calls es = filter (\<lambda>e. \<not> is_log e) es"

definition failures :: "io_outcome list \<Rightarrow> io_outcome list" where
  "failures os = filter (\<lambda>x. x \<noteq> Succeeds) os"

section \<open>Sample inputs\<close>

definition cfg0 :: args where
  "cfg0 = \<lparr>host = ''localhost'', port = 1883, username = None, password = None,
           db = ''logs.db'', json = ''logs.json''\<rparr>"

definition msg0 :: mqtt_msg where
  "msg0 = \<lparr>msg_topic = map of_char ''a/b'', msg_payload = map of_char ''hello'',
           msg_qos = 1, msg_retain = False\<rparr>"

definition now0 :: str where
  "now0 = map of_char ''2024-01-01 00:00:00''"

definition rec0 :: message where
  "rec0 = (map of_char ''a/b'', map of_char ''hello'', now0, 1, False)"

definition rec1 :: message where
  "rec1 = (map of_char ''x'', map of_char ''//4A'', now0, 0, True)"

section \<open>Base64 round trip\<close>

lemma b64_alphabet_distinct: "distinct b64_alphabet"
  unfolding b64_alphabet_def by code_simp

lemma b64_alphabet_length: "length b64_alphabet = 64"
  unfolding b64_alphabet_def by simp

lemma b64_alphabet_ascii: "\<forall>c \<in> set b64_alphabet. c < 0x80"
  unfolding b64_alphabet_def by code_simp

lemma b64_pad_notin: "b64_pad \<notin> set b64_alphabet"
  unfolding b64_alphabet_def b64_pad_def by code_simp

lemma b64_pad_ascii: "b64_pad < 0x80"
  unfolding b64_pad_def by simp

lemma index_of_nth: "distinct xs \<Longrightarrow> i < length xs \<Longrightarrow> index_of (xs ! i) xs = Some i"
proof (induction xs arbitrary: i)
  case Nil
  then show ?case by simp
next
  case (Cons y ys)
  show ?case
  proof (cases i)
    case 0
    then show ?thesis by simp
  next
    case (Suc j)
    with Cons.prems have "ys ! j \<noteq> y" and "distinct ys" and "j < length ys"
      by auto
    with Cons.IH [of j] Suc show ?thesis by simp
  qed
qed

lemma b64_index_char: "unat s < 64 \<Longrightarrow> b64_index (b64_char s) = Some s"
  unfolding b64_index_def b64_char_def
  by (simp add: index_of_nth b64_alphabet_distinct b64_alphabet_length)

lemma b64_char_mem: "unat s < 64 \<Longrightarrow> b64_char s \<in> set b64_alphabet"
  unfolding b64_char_def by (rule nth_mem) (simp add: b64_alphabet_length)

lemma b64_char_not_pad: "unat s < 64 \<Longrightarrow> b64_char s \<noteq> b64_pad"
  using b64_pad_notin b64_char_mem [of s] by metis

lemma b64_char_ascii: "unat s < 64 \<Longrightarrow> b64_char s < 0x80"
  using b64_alphabet_ascii b64_char_mem [of s] by blast

lemma mask_numerals:
  "(3::byte) = mask 2" "(15::byte) = mask 4" "(63::byte) = mask 6"
  by (simp_all add: mask_eq_exp_minus_1)

lemma below_64: "(w::byte) AND 63 = w \<Longrightarrow> unat w < 64"
proof -
  assume h: "w AND 63 = w"
  have "unat (w AND 63) \<le> unat (63 :: byte)"
    by (rule word_and_le1 [THEN word_le_nat_alt [THEN iffD1]])
  with h show ?thesis by simp
qed

lemma bit_position_cases: "n < LENGTH(8) \<Longrightarrow> n \<in> {0, 1, 2, 3, 4, 5, 6, 7::nat}"
  by simp arith

lemma bit_ge8: "8 \<le> n \<Longrightarrow> bit (w::byte) n = False"
  using bit_imp_le_length [of w n] by auto

lemma sextet0_bound: "unat (sextet0 a) < 64"
  unfolding sextet0_def sextet1_def sextet2_def sextet3_def octet0_def octet1_def octet2_def
  by (rule below_64, unfold mask_numerals, rule bit_word_eqI, drule bit_position_cases,
      elim insertE emptyE; simp add: bit_simps bit_ge8)

lemma sextet1_bound: "unat (sextet1 a b) < 64"
  unfolding sextet0_def sextet1_def sextet2_def sextet3_def octet0_def octet1_def octet2_def
  by (rule below_64, unfold mask_numerals, rule bit_word_eqI, drule bit_position_cases,
      elim insertE emptyE; simp add: bit_simps bit_ge8)

lemma sextet2_bound: "unat (sextet2 b c) < 64"
  unfolding sextet0_def sextet1_def sextet2_def sextet3_def octet0_def octet1_def octet2_def
  by (rule below_64, unfold mask_numerals, rule bit_word_eqI, drule bit_position_cases,
      elim insertE emptyE; simp add: bit_simps bit_ge8)

lemma sextet3_bound: "unat (sextet3 c) < 64"
  unfolding sextet0_def sextet1_def sextet2_def sextet3_def octet0_def octet1_def octet2_def
  by (rule below_64, unfold mask_numerals, rule bit_word_eqI, drule bit_position_cases,
      elim insertE emptyE; simp add: bit_simps bit_ge8)

lemmas sextet_bounds = sextet0_bound sextet1_bound sextet2_bound sextet3_bound

lemma octet0_sextets: "octet0 (sextet0 a) (sextet1 a b) = a"
  unfolding sextet0_def sextet1_def sextet2_def sextet3_def octet0_def octet1_def octet2_def
  by (unfold mask_numerals, rule bit_word_eqI, drule bit_position_cases,
      elim insertE emptyE; simp add: bit_simps bit_ge8)

lemma octet1_sextets: "octet1 (sextet1 a b) (sextet2 b c) = b"
  unfolding sextet0_def sextet1_def sextet2_def sextet3_def octet0_def octet1_def octet2_def
  by (unfold mask_numerals, rule bit_word_eqI, drule bit_position_cases,
      elim insertE emptyE; simp add: bit_simps bit_ge8)

lemma octet2_sextets: "octet2 (sextet2 b c) (sextet3 c) = c"
  unfolding sextet0_def sextet1_def sextet2_def sextet3_def octet0_def octet1_def octet2_def
  by (unfold mask_numerals, rule bit_word_eqI, drule bit_position_cases,
      elim insertE emptyE; simp add: bit_simps bit_ge8)

lemmas octets_sextets = octet0_sextets octet1_sextets octet2_sextets

lemma utf8_decode_ascii:
  "\<forall>b \<in> set bs. b < 0x80 \<Longrightarrow> utf8_decode bs = Some (map unat bs)"
  by (induction bs) (simp_all add: utf8_char_def)

lemma b64encode_ascii: "\<forall>c \<in> set (b64encode bs). c < 0x80"
  by (induction bs rule: b64encode.induct)
     (simp_all add: b64_char_ascii sextet_bounds b64_pad_ascii)

lemma ascii_encode_unat:
  "\<forall>b \<in> set bs. b < 0x80 \<Longrightarrow> ascii_encode (map unat bs) = Some bs"
  by (induction bs) (simp_all add: word_less_nat_alt)

lemma b64decode_bytes_encode: "b64decode_bytes (b64encode bs) = Some bs"
  by (induction bs rule: b64encode.induct)
     (simp_all add: b64_index_char b64_char_not_pad sextet_bounds octets_sextets)

lemma b64_text_roundtrip:
  "utf8_decode (b64encode bs) = Some (map unat (b64encode bs))"
  "b64decode (map unat (b64encode bs)) = Some bs"
  using b64encode_ascii [of bs]
  by (simp_all add: utf8_decode_ascii b64decode_def ascii_encode_unat b64decode_bytes_encode)

text \<open>
  C1. Whatever bytes a message carries, \<^verbatim>\<open>on_message\<close> returns without an exception
  and puts exactly one tuple on the queue. Its payload is the decoded text when strict
  UTF-8 decoding of the bytes succeeds; otherwise it is the base64 text of the bytes, and
  base64-decoding that text gives the original bytes back.
\<close>

theorem on_message_payload_roundtrip:
  "fst (on_message msg now w) = None \<and>
   (\<exists>p. message_queue (snd (on_message msg now w)) =
           message_queue w @ [(msg_topic msg, p, now, msg_qos msg, msg_retain msg)]
       \<and> (case utf8_decode (msg_payload msg) of
            Some t \<Rightarrow> p = t
          | None \<Rightarrow> p = map unat (b64encode (msg_payload msg))
                    \<and> b64decode p = Some (msg_payload msg)))"
  by (cases "utf8_decode (msg_payload msg)")
     (simp_all add: on_message_def decode_payload_def b64_text_roundtrip emit_def Let_def)

section \<open>Receipt buffer: nothing lost, nothing twice\<close>

lemma buffer_step_conserves:
  "concat (drains (buffer_step s a)) @ batch_messages (buffer_step s a) @ queue (buffer_step s a)
     = concat (drains s) @ batch_messages s @ queue s @ puts [a]"
  by (cases a) (simp_all split: list.splits)

lemma puts_append: "puts (xs @ ys) = puts xs @ puts ys"
  by (induction xs rule: puts.induct) simp_all

lemma run_buffer_conserves:
  "concat (drains (run_buffer acts s)) @ batch_messages (run_buffer acts s)
       @ queue (run_buffer acts s)
     = concat (drains s) @ batch_messages s @ queue s @ puts acts"
unfolding run_buffer_def
proof (induction acts arbitrary: s)
  case Nil
  then show ?case by simp
next
  case (Cons a acts)
  have "puts (a # acts) = puts [a] @ puts acts"
    using puts_append [of "[a]" acts] by simp
  with Cons [of "buffer_step s a"] buffer_step_conserves [of s a] show ?case
    by simp
qed

lemma finish_drain:
  "run_buffer (replicate (Suc (length (queue s))) LoopTest) s
     = s\<lparr>queue := [], batch_messages := [],
          drains := drains s @ [fst (drain (batch_messages s) (queue s))]\<rparr>"
unfolding run_buffer_def
proof (induction "queue s" arbitrary: s)
  case Nil
  then show ?case by simp
next
  case (Cons m q)
  from Cons(2) have q: "queue s = m # q" by simp
  let ?s = "s\<lparr>queue := q, batch_messages := batch_messages s @ [m]\<rparr>"
  have "q = queue ?s" by simp
  from Cons(1) [OF this] q show ?case by simp
qed

lemma drain_eq: "drain b q = (b @ q, [])"
  by (induction q arbitrary: b) simp_all

text \<open>
  C2. Whatever way puts by the delivery thread and steps of the persister's drain loop
  follow one another, starting from an empty buffer: the drain results so far, then the
  batch being built, then the queue, hold the records in the order they were put, each
  once. When the drain loop is then run to its end, the drain results alone hold every
  record put, in that order, and nothing is left behind.
\<close>

theorem buffer_exactly_once_in_order:
  "concat (drains (run_buffer acts empty_buffer))
       @ batch_messages (run_buffer acts empty_buffer)
       @ queue (run_buffer acts empty_buffer) = puts acts
   \<and> (let s = run_buffer acts empty_buffer;
          s' = run_buffer (replicate (Suc (length (queue s))) LoopTest) s
      in concat (drains s') = puts acts \<and> queue s' = [] \<and> batch_messages s' = [])"
proof -
  define s where "s = run_buffer acts empty_buffer"
  have kept: "concat (drains s) @ batch_messages s @ queue s = puts acts"
    using run_buffer_conserves [of acts empty_buffer] by (simp add: s_def empty_buffer_def)
  note fin = finish_drain [of s]
  show ?thesis
    unfolding Let_def s_def [symmetric] fin using kept by (simp add: drain_eq)
qed

section \<open>Connection life cycle\<close>

lemma new_effects_emit [simp]: "new_effects w (emit e w') = new_effects w w' @ [e]" if "length (effects w) \<le> length (effects w')"
  using that by (simp add: new_effects_def emit_def)

text \<open>
  C5. A disconnect with a reason code other than 0 logs, sleeps 5 seconds and then calls
  \<^verbatim>\<open>reconnect\<close> once, and does nothing else; a disconnect with reason code 0 only
  logs; a connection acknowledged with reason code 0 subscribes to \<^verbatim>\<open>#\<close>.
\<close>

theorem reconnect_and_subscribe:
  "(rc \<noteq> 0 \<longrightarrow>
      new_effects w (snd (on_disconnect rc w)) =
        [Log WARNING DisconnectedFromBroker, Log WARNING (UnexpectedDisconnection rc),
         Sleep 5, Reconnect])
   \<and> new_effects w (snd (on_disconnect 0 w)) = [Log WARNING DisconnectedFromBroker]
   \<and> new_effects w (on_connect 0 w) = [Log INFO ConnectedToBroker, Subscribe ''#'']"
  by (simp add: on_disconnect_def on_connect_def perform_def emit_def new_effects_def Let_def
           split: list.splits io_outcome.splits)

theorem reconnect_and_subscribe_witness:
  "(7::int) \<noteq> 0 \<and>
   new_effects fresh (snd (on_disconnect 7 fresh)) =
     [Log WARNING DisconnectedFromBroker, Log WARNING (UnexpectedDisconnection 7),
      Sleep 5, Reconnect]
   \<and> count_list (effects (snd (on_disconnect 7 fresh))) Reconnect = 1
   \<and> Reconnect \<notin> set (effects (snd (on_disconnect 0 fresh)))"
  using reconnect_and_subscribe [of 7 fresh]
  by (simp add: fresh_def new_effects_def on_disconnect_def emit_def perform_def Let_def)

section \<open>Persisting a batch\<close>

lemma save_to_json_summary:
  assumes "Raises KeyboardInterrupt \<notin> set (io w)" and "w' = snd (save_to_json cfg m w)"
  shows "fst (save_to_json cfg m w) = None"
    and "io w' = drop 1 (io w)"
    and "effects w' = effects w @ new_effects w w'"
    and "sink_calls (new_effects w w') = [OpenAppendWrite (json cfg) (json_line m)]"
    and "length (filter is_error_log (new_effects w w')) = length (failures (take 1 (io w)))"
    and "message_queue w' = message_queue w"
    and "db_committed w' = db_committed w"
    and "db_pending w' = db_pending w"
    and "json_file w' = json_file w @ (case io w of Raises _ # _ \<Rightarrow> [] | _ \<Rightarrow> json_line m)"
  using assms
  by (auto simp: save_to_json_def perform_def emit_def except_Exception_def new_effects_def
                 sink_calls_def failures_def
           split: list.splits io_outcome.splits exn.splits)

lemma save_to_sqlite_batch_summary:
  assumes "Raises KeyboardInterrupt \<notin> set (io w)"
    and "w' = snd (save_to_sqlite_batch batch w)"
    and "k = (case io w of Raises _ # _ \<Rightarrow> (1::nat) | _ \<Rightarrow> 2)"
  shows "fst (save_to_sqlite_batch batch w) = None"
    and "io w' = drop k (io w)"
    and "effects w' = effects w @ new_effects w w'"
    and "sink_calls (new_effects w w') =
           ExecuteMany batch # (case io w of Raises _ # _ \<Rightarrow> [] | _ \<Rightarrow> [Commit])"
    and "length (filter is_error_log (new_effects w w')) = length (failures (take k (io w)))"
    and "message_queue w' = message_queue w"
    and "json_file w' = json_file w"
  using assms
  by (auto simp: save_to_sqlite_batch_def perform_def emit_def except_Exception_def
                 new_effects_def sink_calls_def failures_def
           split: list.splits io_outcome.splits exn.splits)


lemma new_effects_append:
  assumes "effects w1 = effects w @ new_effects w w1"
    and "effects w2 = effects w1 @ new_effects w1 w2"
  shows "new_effects w w2 = new_effects w w1 @ new_effects w1 w2"
    and "effects w2 = effects w @ new_effects w w2"
proof -
  have "effects w2 = effects w @ (new_effects w w1 @ new_effects w1 w2)"
    using assms by simp
  then show "new_effects w w2 = new_effects w w1 @ new_effects w1 w2"
    unfolding new_effects_def [of w w2] by simp
  with assms show "effects w2 = effects w @ new_effects w w2"
    by simp
qed

lemma new_effects_self [simp]: "new_effects w w = []"
  by (simp add: new_effects_def)

lemma no_interrupt_drop:
  "Raises KeyboardInterrupt \<notin> set xs \<Longrightarrow> Raises KeyboardInterrupt \<notin> set (drop n xs)"
  by (auto dest: in_set_dropD)

lemma failures_take_Suc:
  "failures (take (Suc n) xs) = failures (take 1 xs) @ failures (take n (drop 1 xs))"
  by (cases xs) (simp_all add: failures_def)

lemma failures_take_add:
  "failures (take (k + n) xs) = failures (take k xs) @ failures (take n (drop k xs))"
  by (simp add: failures_def take_add)

lemma save_each_to_json_summary:
  assumes "Raises KeyboardInterrupt \<notin> set (io w)"
    and "w' = snd (save_each_to_json cfg ms w)"
  shows "fst (save_each_to_json cfg ms w) = None
    \<and> io w' = drop (length ms) (io w)
    \<and> effects w' = effects w @ new_effects w w'
    \<and> sink_calls (new_effects w w') = map (\<lambda>m. OpenAppendWrite (json cfg) (json_line m)) ms
    \<and> length (filter is_error_log (new_effects w w'))
        = length (failures (take (length ms) (io w)))
    \<and> message_queue w' = message_queue w
    \<and> db_committed w' = db_committed w
    \<and> db_pending w' = db_pending w"
  using assms
proof (induction ms arbitrary: w)
  case Nil
  then show ?case by (simp add: sink_calls_def failures_def)
next
  case (Cons m ms)
  define w1 where "w1 = snd (save_to_json cfg m w)"
  note one = save_to_json_summary [OF Cons.prems(1) w1_def]
  have step: "save_each_to_json cfg (m # ms) w = save_each_to_json cfg ms w1"
  proof (cases "save_to_json cfg m w")
    case (Pair r v)
    with one(1) show ?thesis by (simp add: w1_def)
  qed
  have quiet: "Raises KeyboardInterrupt \<notin> set (io w1)"
    using Cons.prems(1) one(2) by (simp add: no_interrupt_drop)
  have w': "w' = snd (save_each_to_json cfg ms w1)"
    using Cons.prems(2) step by simp
  note rest = Cons.IH [OF quiet w']
  note both = new_effects_append [OF one(3) rest [THEN conjunct2, THEN conjunct2, THEN conjunct1]]
  show ?case
    using rest one step
    by (simp add: both sink_calls_def failures_take_Suc [of "length ms"] del: take_Suc_Cons)
qed


lemma persist_batch_summary:
  assumes "Raises KeyboardInterrupt \<notin> set (io w)"
    and "w' = snd (persist_batch cfg batch w)"
    and "k = (if batch = [] then 0
              else (case io w of Raises _ # _ \<Rightarrow> (1::nat) | _ \<Rightarrow> 2) + length batch)"
  shows "fst (persist_batch cfg batch w) = None
    \<and> io w' = drop k (io w)
    \<and> effects w' = effects w @ new_effects w w'
    \<and> sink_calls (new_effects w w') =
        (if batch = [] then []
         else ExecuteMany batch # (case io w of Raises _ # _ \<Rightarrow> [] | _ \<Rightarrow> [Commit])
              @ map (\<lambda>m. OpenAppendWrite (json cfg) (json_line m)) batch)
    \<and> length (filter is_error_log (new_effects w w')) = length (failures (take k (io w)))
    \<and> message_queue w' = message_queue w"
proof (cases "batch = []")
  case True
  with assms show ?thesis
    by (simp add: persist_batch_def sink_calls_def failures_def)
next
  case False
  define w1 where "w1 = snd (save_to_sqlite_batch batch w)"
  define j where "j = (case io w of Raises _ # _ \<Rightarrow> (1::nat) | _ \<Rightarrow> 2)"
  note one = save_to_sqlite_batch_summary [OF assms(1) w1_def j_def]
  have step: "persist_batch cfg batch w = save_each_to_json cfg batch w1"
  proof (cases "save_to_sqlite_batch batch w")
    case (Pair r v)
    with one(1) False show ?thesis by (simp add: w1_def persist_batch_def)
  qed
  have quiet: "Raises KeyboardInterrupt \<notin> set (io w1)"
    using assms(1) one(2) by (simp add: no_interrupt_drop)
  have w': "w' = snd (save_each_to_json cfg batch w1)"
    using assms(2) step by simp
  note rest = save_each_to_json_summary [OF quiet w']
  note both = new_effects_append [OF one(3) rest [THEN conjunct2, THEN conjunct2, THEN conjunct1]]
  have k: "k = j + length batch"
    using assms(3) False by (simp add: j_def)
  show ?thesis
    using rest one step False
    by (simp add: both sink_calls_def k failures_take_add add.commute)
qed

section \<open>Failures of a sink stay inside the tick\<close>

lemma loop_iteration_quiet:
  assumes "Raises KeyboardInterrupt \<notin> set (io w)"
  shows "fst (loop_iteration cfg w) = None
       \<and> Raises KeyboardInterrupt \<notin> set (io (snd (loop_iteration cfg w)))"
proof -
  define q where "q = w\<lparr>message_queue := []\<rparr>"
  define w1 where "w1 = snd (persist_batch cfg (message_queue w) q)"
  have quiet: "Raises KeyboardInterrupt \<notin> set (io q)"
    using assms by (simp add: q_def)
  note p = persist_batch_summary [OF quiet w1_def refl]
  have "loop_iteration cfg w = (None, emit (Sleep 1) w1)"
  proof (cases "persist_batch cfg (message_queue w) q")
    case (Pair r v)
    with p show ?thesis
      by (simp add: loop_iteration_def drain_eq q_def w1_def)
  qed
  moreover have "Raises KeyboardInterrupt \<notin> set (io w1)"
    using p quiet by (simp add: no_interrupt_drop)
  ultimately show ?thesis by (simp add: emit_def)
qed

lemma on_message_io [simp]: "io (snd (on_message msg now w)) = io w"
  by (simp add: on_message_def emit_def Let_def split: option.splits prod.splits)

lemma on_connect_io [simp]: "io (on_connect rc w) = io w"
  by (simp add: on_connect_def emit_def)

lemma on_disconnect_io: "\<exists>n. io (snd (on_disconnect rc w)) = drop n (io w)"
proof (cases "rc = 0 \<or> io w = []")
  case True
  then have "io (snd (on_disconnect rc w)) = drop 0 (io w)"
    by (auto simp: on_disconnect_def perform_def emit_def Let_def)
  then show ?thesis by blast
next
  case False
  then have "io (snd (on_disconnect rc w)) = drop 1 (io w)"
    by (auto simp: on_disconnect_def perform_def emit_def Let_def drop_Suc
             split: list.splits io_outcome.splits)
  then show ?thesis by blast
qed

lemma main_loop_keeps_running:
  "Raises KeyboardInterrupt \<notin> set (io w) \<Longrightarrow> Sigint \<notin> set evs
     \<Longrightarrow> fst (main_loop cfg evs w) = Running"
proof (induction cfg evs w rule: main_loop.induct)
  case (5 cfg evs w)
  note it = loop_iteration_quiet [OF "5.prems"(1), of cfg]
  show ?case
  proof (cases "loop_iteration cfg w")
    case (Pair r v)
    with it have "r = None" and "Raises KeyboardInterrupt \<notin> set (io v)" by simp_all
    with "5.IH" Pair "5.prems" show ?thesis by auto
  qed
next
  case (4 cfg rc evs w)
  obtain n where "io (snd (on_disconnect rc w)) = drop n (io w)"
    using on_disconnect_io by blast
  with 4 show ?case by (simp add: no_interrupt_drop)
qed simp_all


lemma take_consumed: "take (length xs - (length xs - k)) xs = take k xs"
  by (cases "k \<le> length xs") simp_all

text \<open>
  C3. As long as what the sink calls raise are exceptions of the \<^verbatim>\<open>Exception\<close>
  hierarchy, whatever calls fail: persisting a batch ends without an exception; every
  failure the environment dealt is answered by one error line; whether the batch insert
  goes through, raises in \<^verbatim>\<open>executemany\<close> or raises in \<^verbatim>\<open>commit\<close>, the calls
  made on the sinks for a batch that is not empty are the insert, the commit when
  \<^verbatim>\<open>executemany\<close> did not raise, and then one append per record of the batch, in
  order; and the loop is still running after any run of deliveries, connection events
  and turns of the loop.
\<close>

theorem sink_failures_stay_in_the_tick:
  "Raises KeyboardInterrupt \<notin> set (io w) \<Longrightarrow>
   (let w' = snd (persist_batch cfg batch w) in
      fst (persist_batch cfg batch w) = None
    \<and> length (filter is_error_log (new_effects w w'))
        = length (failures (take (length (io w) - length (io w')) (io w)))
    \<and> (batch \<noteq> [] \<longrightarrow>
         sink_calls (new_effects w w') =
           ExecuteMany batch # (case io w of Raises _ # _ \<Rightarrow> [] | _ \<Rightarrow> [Commit])
           @ map (\<lambda>m. OpenAppendWrite (json cfg) (json_line m)) batch)
    \<and> (Sigint \<notin> set evs \<longrightarrow> fst (main_loop cfg evs w) = Running))"
proof -
  assume quiet: "Raises KeyboardInterrupt \<notin> set (io w)"
  define w' where "w' = snd (persist_batch cfg batch w)"
  note p = persist_batch_summary [OF quiet w'_def refl]
  from p have "fst (persist_batch cfg batch w) = None" by simp
  moreover from p have "length (filter is_error_log (new_effects w w'))
      = length (failures (take (length (io w) - length (io w')) (io w)))"
    by (simp add: take_consumed)
  moreover from p have "batch \<noteq> [] \<longrightarrow>
      sink_calls (new_effects w w') =
        ExecuteMany batch # (case io w of Raises _ # _ \<Rightarrow> [] | _ \<Rightarrow> [Commit])
        @ map (\<lambda>m. OpenAppendWrite (json cfg) (json_line m)) batch"
    by simp
  moreover have "Sigint \<notin> set evs \<longrightarrow> fst (main_loop cfg evs w) = Running"
    using main_loop_keeps_running [OF quiet] by simp
  ultimately show ?thesis
    by (simp add: Let_def w'_def)
qed

lemma save_to_sqlite_batch_fault_free:
  assumes "set (io w) \<subseteq> {Succeeds}" and "w' = snd (save_to_sqlite_batch batch w)"
  shows "fst (save_to_sqlite_batch batch w) = None \<and> set (io w') \<subseteq> {Succeeds}
    \<and> db_committed w' = db_committed w @ db_pending w @ batch \<and> db_pending w' = []
    \<and> json_file w' = json_file w \<and> message_queue w' = message_queue w"
  using assms
  by (auto simp: save_to_sqlite_batch_def perform_def emit_def
           split: list.splits io_outcome.splits)

lemma save_to_json_fault_free:
  assumes "set (io w) \<subseteq> {Succeeds}" and "w' = snd (save_to_json cfg m w)"
  shows "fst (save_to_json cfg m w) = None \<and> set (io w') \<subseteq> {Succeeds}
    \<and> db_committed w' = db_committed w \<and> db_pending w' = db_pending w
    \<and> json_file w' = json_file w @ json_line m \<and> message_queue w' = message_queue w"
  using assms
  by (auto simp: save_to_json_def perform_def emit_def
           split: list.splits io_outcome.splits)

lemma save_each_to_json_fault_free:
  assumes "set (io w) \<subseteq> {Succeeds}" and "w' = snd (save_each_to_json cfg ms w)"
  shows "fst (save_each_to_json cfg ms w) = None \<and> set (io w') \<subseteq> {Succeeds}
    \<and> db_committed w' = db_committed w \<and> db_pending w' = db_pending w
    \<and> json_file w' = json_file w @ concat (map json_line ms)
    \<and> message_queue w' = message_queue w"
  using assms
proof (induction ms arbitrary: w)
  case Nil
  then show ?case by simp
next
  case (Cons m ms)
  define w1 where "w1 = snd (save_to_json cfg m w)"
  note one = save_to_json_fault_free [OF Cons.prems(1) w1_def]
  have step: "save_each_to_json cfg (m # ms) w = save_each_to_json cfg ms w1"
  proof (cases "save_to_json cfg m w")
    case (Pair r v)
    with one show ?thesis by (simp add: w1_def)
  qed
  from one have ok: "set (io w1) \<subseteq> {Succeeds}" by simp
  have "w' = snd (save_each_to_json cfg ms w1)"
    using Cons.prems(2) step by simp
  from Cons.IH [OF ok this] one step show ?case by simp
qed

lemma loop_iteration_fault_free:
  assumes "set (io w) \<subseteq> {Succeeds}" and "db_pending w = []"
    and "w' = snd (loop_iteration cfg w)"
  shows "fst (loop_iteration cfg w) = None \<and> set (io w') \<subseteq> {Succeeds}
    \<and> db_committed w' = db_committed w @ message_queue w \<and> db_pending w' = []
    \<and> json_file w' = json_file w @ concat (map json_line (message_queue w))
    \<and> message_queue w' = []"
proof (cases "message_queue w = []")
  case True
  with assms show ?thesis
    by (simp add: loop_iteration_def drain_eq persist_batch_def emit_def)
next
  case False
  define q where "q = w\<lparr>message_queue := []\<rparr>"
  define w1 where "w1 = snd (save_to_sqlite_batch (message_queue w) q)"
  define w2 where "w2 = snd (save_each_to_json cfg (message_queue w) w1)"
  have "set (io q) \<subseteq> {Succeeds}" using assms(1) by (simp add: q_def)
  note one = save_to_sqlite_batch_fault_free [OF this w1_def]
  from one have "set (io w1) \<subseteq> {Succeeds}" by simp
  note two = save_each_to_json_fault_free [OF this w2_def]
  have "persist_batch cfg (message_queue w) q = (None, w2)"
  proof (cases "save_to_sqlite_batch (message_queue w) q")
    case (Pair r v)
    with one two False show ?thesis
      by (cases "save_each_to_json cfg (message_queue w) w1")
         (simp add: persist_batch_def w1_def w2_def)
  qed
  then have "loop_iteration cfg w = (None, emit (Sleep 1) w2)"
    by (simp add: loop_iteration_def drain_eq q_def)
  with one two assms show ?thesis
    by (simp add: emit_def q_def)
qed

theorem sink_failures_stay_in_the_tick_witness:
  "Raises KeyboardInterrupt \<notin> set [Succeeds, Raises (Exception ''disk full'')]
   \<and> Raises KeyboardInterrupt \<notin> set [Raises (Exception ''database is locked'')]
   \<and> fst (persist_batch cfg0 [rec0, rec1]
             (fresh\<lparr>io := [Succeeds, Raises (Exception ''disk full'')]\<rparr>)) = None
   \<and> sink_calls (new_effects (fresh\<lparr>io := [Succeeds, Raises (Exception ''disk full'')]\<rparr>)
        (snd (persist_batch cfg0 [rec0, rec1]
               (fresh\<lparr>io := [Succeeds, Raises (Exception ''disk full'')]\<rparr>))))
      = [ExecuteMany [rec0, rec1], Commit, OpenAppendWrite (json cfg0) (json_line rec0),
         OpenAppendWrite (json cfg0) (json_line rec1)]
   \<and> sink_calls (new_effects (fresh\<lparr>io := [Raises (Exception ''database is locked'')]\<rparr>)
        (snd (persist_batch cfg0 [rec0, rec1]
               (fresh\<lparr>io := [Raises (Exception ''database is locked'')]\<rparr>))))
      = [ExecuteMany [rec0, rec1], OpenAppendWrite (json cfg0) (json_line rec0),
         OpenAppendWrite (json cfg0) (json_line rec1)]
   \<and> fst (main_loop cfg0 [Deliver msg0 now0, Iterate]
             (fresh\<lparr>io := [Succeeds, Raises (Exception ''disk full'')]\<rparr>)) = Running"
proof -
  let ?c = "fresh\<lparr>io := [Succeeds, Raises (Exception ''disk full'')]\<rparr>"
  let ?x = "fresh\<lparr>io := [Raises (Exception ''database is locked'')]\<rparr>"
  have quiet_c: "Raises KeyboardInterrupt \<notin> set (io ?c)" by simp
  have quiet_x: "Raises KeyboardInterrupt \<notin> set (io ?x)" by simp
  have events: "Sigint \<notin> set [Deliver msg0 now0, Iterate]" by simp
  note tc = sink_failures_stay_in_the_tick
    [OF quiet_c, of cfg0 "[rec0, rec1]" "[Deliver msg0 now0, Iterate]", unfolded Let_def]
  note tx = sink_failures_stay_in_the_tick
    [OF quiet_x, of cfg0 "[rec0, rec1]" "[Deliver msg0 now0, Iterate]", unfolded Let_def]
  from tc tx events show ?thesis by simp
qed

section \<open>Order of writes, within a batch and across batches\<close>

lemma on_message_queue:
  "message_queue (snd (on_message msg now w)) =
     message_queue w @ message_queue (snd (on_message msg now fresh))"
  by (simp add: on_message_def emit_def Let_def fresh_def split: option.splits prod.splits)

lemma on_message_sinks [simp]:
  "db_committed (snd (on_message msg now w)) = db_committed w"
  "db_pending (snd (on_message msg now w)) = db_pending w"
  "json_file (snd (on_message msg now w)) = json_file w"
  by (simp_all add: on_message_def emit_def Let_def split: option.splits prod.splits)

lemma on_connect_state [simp]:
  "db_committed (on_connect rc w) = db_committed w"
  "db_pending (on_connect rc w) = db_pending w"
  "json_file (on_connect rc w) = json_file w"
  "message_queue (on_connect rc w) = message_queue w"
  by (simp_all add: on_connect_def emit_def)

lemma on_disconnect_state [simp]:
  "db_committed (snd (on_disconnect rc w)) = db_committed w"
  "db_pending (snd (on_disconnect rc w)) = db_pending w"
  "json_file (snd (on_disconnect rc w)) = json_file w"
  "message_queue (snd (on_disconnect rc w)) = message_queue w"
  by (simp_all add: on_disconnect_def perform_def emit_def Let_def
           split: list.splits io_outcome.splits)

lemma fault_free_drop: "set xs \<subseteq> {Succeeds} \<Longrightarrow> set (drop n xs) \<subseteq> {Succeeds}"
  using set_drop_subset [of n xs] by blast

lemma main_loop_fault_free:
  "set (io w) \<subseteq> {Succeeds} \<Longrightarrow> db_pending w = [] \<Longrightarrow> Sigint \<notin> set evs \<Longrightarrow>
   \<exists>rows. db_committed (snd (main_loop cfg evs w)) = db_committed w @ rows
        \<and> json_file (snd (main_loop cfg evs w)) = json_file w @ concat (map json_line rows)
        \<and> rows @ message_queue (snd (main_loop cfg evs w)) = message_queue w @ delivered evs
        \<and> db_pending (snd (main_loop cfg evs w)) = []"
proof (induction evs arbitrary: w)
  case Nil
  then show ?case by simp
next
  case (Cons ev evs)
  show ?case
  proof (cases ev)
    case (Deliver msg now)
    let ?w1 = "snd (on_message msg now w)"
    have "set (io ?w1) \<subseteq> {Succeeds}" "db_pending ?w1 = []" "Sigint \<notin> set evs"
      using Cons.prems by simp_all
    from Cons.IH [OF this, of ] obtain rows where
      "db_committed (snd (main_loop cfg evs ?w1)) = db_committed ?w1 @ rows"
      "json_file (snd (main_loop cfg evs ?w1)) = json_file ?w1 @ concat (map json_line rows)"
      "rows @ message_queue (snd (main_loop cfg evs ?w1)) = message_queue ?w1 @ delivered evs"
      "db_pending (snd (main_loop cfg evs ?w1)) = []"
      by blast
    then show ?thesis
      using Deliver by (simp add: on_message_queue [of msg now w])
  next
    case (ConnAck rc)
    let ?w1 = "on_connect rc w"
    have "set (io ?w1) \<subseteq> {Succeeds}" "db_pending ?w1 = []" "Sigint \<notin> set evs"
      using Cons.prems by simp_all
    from Cons.IH [OF this] show ?thesis
      using ConnAck by simp
  next
    case (Disconnected rc)
    let ?w1 = "snd (on_disconnect rc w)"
    obtain n where "io ?w1 = drop n (io w)"
      using on_disconnect_io by blast
    then have "set (io ?w1) \<subseteq> {Succeeds}" "db_pending ?w1 = []" "Sigint \<notin> set evs"
      using Cons.prems by (simp_all add: fault_free_drop)
    from Cons.IH [OF this] show ?thesis
      using Disconnected by simp
  next
    case Iterate
    define w1 where "w1 = snd (loop_iteration cfg w)"
    note it = loop_iteration_fault_free [OF Cons.prems(1) Cons.prems(2) w1_def]
    have step: "main_loop cfg (ev # evs) w = main_loop cfg evs w1"
    proof (cases "loop_iteration cfg w")
      case (Pair r v)
      with it Iterate show ?thesis by (simp add: w1_def)
    qed
    have "set (io w1) \<subseteq> {Succeeds}" "db_pending w1 = []" "Sigint \<notin> set evs"
      using it Cons.prems by simp_all
    from Cons.IH [OF this] obtain rows where rows:
      "db_committed (snd (main_loop cfg evs w1)) = db_committed w1 @ rows"
      "json_file (snd (main_loop cfg evs w1)) = json_file w1 @ concat (map json_line rows)"
      "rows @ message_queue (snd (main_loop cfg evs w1)) = message_queue w1 @ delivered evs"
      "db_pending (snd (main_loop cfg evs w1)) = []"
      by blast
    have "db_committed (snd (main_loop cfg (ev # evs) w))
            = db_committed w @ (message_queue w @ rows)
        \<and> json_file (snd (main_loop cfg (ev # evs) w))
            = json_file w @ concat (map json_line (message_queue w @ rows))
        \<and> (message_queue w @ rows) @ message_queue (snd (main_loop cfg (ev # evs) w))
            = message_queue w @ delivered (ev # evs)
        \<and> db_pending (snd (main_loop cfg (ev # evs) w)) = []"
      using rows it step Iterate by simp
    then show ?thesis by blast
  next
    case Sigint
    with Cons.prems show ?thesis by simp
  qed
qed


lemma persist_batch_fault_free:
  assumes "set (io w) \<subseteq> {Succeeds}" and "db_pending w = []" and "batch \<noteq> []"
  shows "db_committed (snd (persist_batch cfg batch w)) = db_committed w @ batch
       \<and> json_file (snd (persist_batch cfg batch w))
           = json_file w @ concat (map json_line batch)"
proof -
  define w1 where "w1 = snd (save_to_sqlite_batch batch w)"
  define w2 where "w2 = snd (save_each_to_json cfg batch w1)"
  note one = save_to_sqlite_batch_fault_free [OF assms(1) w1_def]
  from one have "set (io w1) \<subseteq> {Succeeds}" by simp
  note two = save_each_to_json_fault_free [OF this w2_def]
  have "persist_batch cfg batch w = save_each_to_json cfg batch w1"
  proof (cases "save_to_sqlite_batch batch w")
    case (Pair r v)
    with one assms(3) show ?thesis by (simp add: persist_batch_def w1_def)
  qed
  with one two assms(2) show ?thesis by (simp add: w2_def)
qed

text \<open>
  C4. For a batch that is not empty, the calls made on the sinks are the one
  \<^verbatim>\<open>executemany\<close> of the whole batch, the commit when the insert did not raise, and
  then one append per record, in the order of the batch. When no call fails, the table
  gains the batch's rows and the file the batch's lines, in that order; and over any run
  of deliveries and turns of the loop, the rows committed, followed by what is still
  queued, are the records that were queued and delivered, in that order and each once,
  while the file gains the lines of the committed rows in the same order.
\<close>

theorem batches_in_receipt_order:
  "(Raises KeyboardInterrupt \<notin> set (io w) \<and> batch \<noteq> [] \<longrightarrow>
      sink_calls (new_effects w (snd (persist_batch cfg batch w))) =
        ExecuteMany batch # (case io w of Raises _ # _ \<Rightarrow> [] | _ \<Rightarrow> [Commit])
        @ map (\<lambda>m. OpenAppendWrite (json cfg) (json_line m)) batch)
   \<and> (set (io w) \<subseteq> {Succeeds} \<and> db_pending w = [] \<and> batch \<noteq> [] \<longrightarrow>
        db_committed (snd (persist_batch cfg batch w)) = db_committed w @ batch
      \<and> json_file (snd (persist_batch cfg batch w))
          = json_file w @ concat (map json_line batch))
   \<and> (set (io w) \<subseteq> {Succeeds} \<and> db_pending w = [] \<and> Sigint \<notin> set evs \<longrightarrow>
        (\<exists>rows. db_committed (snd (main_loop cfg evs w)) = db_committed w @ rows
           \<and> json_file (snd (main_loop cfg evs w))
               = json_file w @ concat (map json_line rows)
           \<and> rows @ message_queue (snd (main_loop cfg evs w))
               = message_queue w @ delivered evs))"
proof (intro conjI impI)
  assume h: "Raises KeyboardInterrupt \<notin> set (io w) \<and> batch \<noteq> []"
  then have quiet: "Raises KeyboardInterrupt \<notin> set (io w)" by simp
  from persist_batch_summary [OF quiet refl refl, of cfg batch] h
  show "sink_calls (new_effects w (snd (persist_batch cfg batch w))) =
        ExecuteMany batch # (case io w of Raises _ # _ \<Rightarrow> [] | _ \<Rightarrow> [Commit])
        @ map (\<lambda>m. OpenAppendWrite (json cfg) (json_line m)) batch"
    by simp
next
  assume h: "set (io w) \<subseteq> {Succeeds} \<and> db_pending w = [] \<and> batch \<noteq> []"
  with persist_batch_fault_free [of w batch cfg]
  show "db_committed (snd (persist_batch cfg batch w)) = db_committed w @ batch" by simp
  from h persist_batch_fault_free [of w batch cfg]
  show "json_file (snd (persist_batch cfg batch w))
          = json_file w @ concat (map json_line batch)" by simp
next
  assume h: "set (io w) \<subseteq> {Succeeds} \<and> db_pending w = [] \<and> Sigint \<notin> set evs"
  with main_loop_fault_free [of w evs cfg]
  show "\<exists>rows. db_committed (snd (main_loop cfg evs w)) = db_committed w @ rows
           \<and> json_file (snd (main_loop cfg evs w))
               = json_file w @ concat (map json_line rows)
           \<and> rows @ message_queue (snd (main_loop cfg evs w))
               = message_queue w @ delivered evs"
    by blast
qed

theorem batches_in_receipt_order_witness:
  "Raises KeyboardInterrupt \<notin> set (io fresh) \<and> [rec0, rec1] \<noteq> []
   \<and> set (io fresh) \<subseteq> {Succeeds} \<and> db_pending fresh = []
   \<and> Sigint \<notin> set [Deliver msg0 now0, Iterate, Deliver msg0 now0, Iterate]
   \<and> sink_calls (new_effects fresh (snd (persist_batch cfg0 [rec0, rec1] fresh))) =
       [ExecuteMany [rec0, rec1], Commit, OpenAppendWrite (json cfg0) (json_line rec0),
        OpenAppendWrite (json cfg0) (json_line rec1)]
   \<and> db_committed (snd (persist_batch cfg0 [rec0, rec1] fresh)) = [rec0, rec1]
   \<and> json_file (snd (persist_batch cfg0 [rec0, rec1] fresh))
       = json_line rec0 @ json_line rec1
   \<and> (\<exists>rows.
         db_committed (snd (main_loop cfg0
             [Deliver msg0 now0, Iterate, Deliver msg0 now0, Iterate] fresh)) = rows
       \<and> json_file (snd (main_loop cfg0
             [Deliver msg0 now0, Iterate, Deliver msg0 now0, Iterate] fresh))
           = concat (map json_line rows)
       \<and> rows @ message_queue (snd (main_loop cfg0
             [Deliver msg0 now0, Iterate, Deliver msg0 now0, Iterate] fresh))
           = delivered [Deliver msg0 now0, Iterate, Deliver msg0 now0, Iterate])"
proof -
  have f: "io fresh = []" "db_pending fresh = []" "db_committed fresh = []"
    "json_file fresh = []" "message_queue fresh = []"
    by (simp_all add: fresh_def)
  have e: "Sigint \<notin> set [Deliver msg0 now0, Iterate, Deliver msg0 now0, Iterate]"
    by simp
  note t = batches_in_receipt_order
    [of fresh "[rec0, rec1]" cfg0 "[Deliver msg0 now0, Iterate, Deliver msg0 now0, Iterate]"]
  from t e show ?thesis
    by (simp add: f)
qed

section \<open>Credentials\<close>

text \<open>
  C10. \<^verbatim>\<open>setup_mqtt\<close> calls \<^verbatim>\<open>username_pw_set\<close>, before \<^verbatim>\<open>connect\<close>, when a
  username and a password are both given and neither is empty; when either is missing or
  empty it makes no such call and connects all the same.
\<close>

theorem credentials_only_when_both:
  "(username cfg = Some u \<and> u \<noteq> [] \<and> password cfg = Some p \<and> p \<noteq> [] \<longrightarrow>
      new_effects w (snd (setup_mqtt cfg w)) =
        [NewClient, Log INFO SettingUp, Log INFO (ConnectingTo (host cfg) (port cfg)),
         UsernamePwSet u p, Connect (host cfg) (port cfg) 60])
   \<and> (username cfg \<in> {None, Some []} \<or> password cfg \<in> {None, Some []} \<longrightarrow>
      new_effects w (snd (setup_mqtt cfg w)) =
        [NewClient, Log INFO SettingUp, Log INFO (ConnectingTo (host cfg) (port cfg)),
         Connect (host cfg) (port cfg) 60])"
  by (auto simp: setup_mqtt_def perform_def emit_def new_effects_def Let_def truthy_def
           split: list.splits io_outcome.splits option.splits)

theorem credentials_only_when_both_witness:
  "new_effects fresh
     (snd (setup_mqtt (cfg0\<lparr>username := Some ''logger'', password := Some ''s3cret''\<rparr>) fresh))
     = [NewClient, Log INFO SettingUp, Log INFO (ConnectingTo ''localhost'' 1883),
        UsernamePwSet ''logger'' ''s3cret'', Connect ''localhost'' 1883 60]
   \<and> new_effects fresh (snd (setup_mqtt (cfg0\<lparr>username := Some ''logger''\<rparr>) fresh))
     = [NewClient, Log INFO SettingUp, Log INFO (ConnectingTo ''localhost'' 1883),
        Connect ''localhost'' 1883 60]
   \<and> new_effects fresh (snd (setup_mqtt (cfg0\<lparr>password := Some ''s3cret''\<rparr>) fresh))
     = [NewClient, Log INFO SettingUp, Log INFO (ConnectingTo ''localhost'' 1883),
        Connect ''localhost'' 1883 60]"
  using credentials_only_when_both
      [of "cfg0\<lparr>username := Some ''logger'', password := Some ''s3cret''\<rparr>"
          "''logger''" "''s3cret''" fresh]
    credentials_only_when_both [of "cfg0\<lparr>username := Some ''logger''\<rparr>" u p fresh]
    credentials_only_when_both [of "cfg0\<lparr>password := Some ''s3cret''\<rparr>" u p fresh]
  by (simp add: cfg0_def)

section \<open>Shutdown\<close>


lemma on_message_msg0: "on_message msg0 now0 w =
  (None, (emit (Log INFO (Received (map of_char ''hello'') (map of_char ''a/b''))) w)
           \<lparr>message_queue := message_queue w @ [rec0]\<rparr>)"
proof -
  have "\<forall>b \<in> set (msg_payload msg0). b < 0x80" by (simp add: msg0_def)
  then have "utf8_decode (msg_payload msg0) = Some (map unat (msg_payload msg0))"
    by (rule utf8_decode_ascii)
  then show ?thesis
    by (simp add: on_message_def decode_payload_def Let_def rec0_def emit_def)
       (simp add: msg0_def)
qed


section \<open>The structured-record file\<close>

lemma hex_digit_not_newline: "n < 16 \<Longrightarrow> hex_digit n \<noteq> CHR 0x0A"
proof -
  assume "n < 16"
  then have "hex_digit n \<in> set ''0123456789abcdef''"
    unfolding hex_digit_def by (intro nth_mem) simp
  then show ?thesis by auto
qed

lemma hex4_no_newline: "CHR 0x0A \<notin> set (hex4 n)"
  using hex_digit_not_newline [of "n div 4096 mod 16"] hex_digit_not_newline [of "n div 256 mod 16"]
    hex_digit_not_newline [of "n div 16 mod 16"] hex_digit_not_newline [of "n mod 16"]
  by (auto simp: hex4_def)

lemma char_of_printable:
  "32 \<le> c \<Longrightarrow> c \<le> 126 \<Longrightarrow> char_of (c::nat) \<noteq> CHR 0x0A"
proof
  assume "32 \<le> c" "c \<le> 126" "char_of c = CHR 0x0A"
  then have "of_char (char_of c) = (of_char (CHR 0x0A) :: nat)" by simp
  then have "c mod 256 = 10" by simp
  with \<open>32 \<le> c\<close> \<open>c \<le> 126\<close> show False by simp
qed

lemma json_escape_no_newline: "CHR 0x0A \<notin> set (json_escape c)"
  using hex4_no_newline
  using char_of_printable [of c]
  by (auto simp: json_escape_def Let_def backslash_def)

lemma json_str_no_newline: "CHR 0x0A \<notin> set (json_str s)"
  using json_escape_no_newline by (auto simp: json_str_def)

lemma nat_repr_no_newline: "CHR 0x0A \<notin> set (nat_repr n)"
proof (induction n rule: nat_repr.induct)
  case (1 n)
  show ?case
  proof (cases "n < 10")
    case True
    then have "char_of (48 + n) \<noteq> CHR 0x0A" by (intro char_of_printable) simp_all
    with True show ?thesis by (subst nat_repr.simps) simp
  next
    case False
    have "char_of (48 + n mod 10) \<noteq> CHR 0x0A" by (intro char_of_printable) simp_all
    with False 1 show ?thesis by (subst nat_repr.simps) simp
  qed
qed

lemma int_repr_no_newline: "CHR 0x0A \<notin> set (int_repr i)"
  using nat_repr_no_newline by (auto simp: int_repr_def)

lemma json_value_no_newline: "CHR 0x0A \<notin> set (json_value v)"
  by (cases v) (auto simp: json_str_no_newline int_repr_no_newline)

lemma json_item_no_newline: "CHR 0x0A \<notin> set (json_item kv)"
  using json_str_no_newline json_value_no_newline
  by (auto simp: json_item_def)

lemma json_items_no_newline: "CHR 0x0A \<notin> set (json_items d)"
  by (induction d rule: json_items.induct)
     (auto simp: json_item_no_newline)

lemma json_dumps_no_newline: "CHR 0x0A \<notin> set (json_dumps d)"
  using json_items_no_newline by (auto simp: json_dumps_def)

text \<open>
  C9. \<^verbatim>\<open>save_to_json\<close> makes one call on the file, an append of the text
  \<^verbatim>\<open>json.dumps(message) + '\n'\<close>, where \<^verbatim>\<open>message\<close> has the keys topic, payload,
  datetime, qos and retain, in that order, with the record's values. The JSON text holds
  no line break, so the text appended is exactly one line. When the call succeeds the
  file is what it was followed by that line; when it raises the file is what it was.
\<close>

theorem save_to_json_appends_one_line:
  "json_file (snd (save_to_json cfg (topic, payload, datetime, qos, retain) w)) =
     json_file w @
       (case io w of
          Raises _ # _ \<Rightarrow> []
        | _ \<Rightarrow> json_dumps [(''topic'', JStr topic), (''payload'', JStr payload),
                          (''datetime'', JStr datetime), (''qos'', JInt qos),
                          (''retain'', JBool retain)] @ [newline])
   \<and> newline \<notin> set (json_dumps [(''topic'', JStr topic), (''payload'', JStr payload),
                          (''datetime'', JStr datetime), (''qos'', JInt qos),
                          (''retain'', JBool retain)])
   \<and> sink_calls (new_effects w
        (snd (save_to_json cfg (topic, payload, datetime, qos, retain) w))) =
       [OpenAppendWrite (json cfg)
          (json_dumps [(''topic'', JStr topic), (''payload'', JStr payload),
                       (''datetime'', JStr datetime), (''qos'', JInt qos),
                       (''retain'', JBool retain)] @ [newline])]"
proof (intro conjI)
  show "newline \<notin> set (json_dumps [(''topic'', JStr topic), (''payload'', JStr payload),
                          (''datetime'', JStr datetime), (''qos'', JInt qos),
                          (''retain'', JBool retain)])"
    unfolding newline_def by (rule json_dumps_no_newline)
qed (auto simp: save_to_json_def perform_def emit_def except_Exception_def new_effects_def
                sink_calls_def json_line_def
          split: list.splits io_outcome.splits exn.splits)

section \<open>Start-up\<close>

lemma setup_sqlite_cases:
  "(failures (take 3 (io w)) = [] \<longrightarrow>
      fst (setup_sqlite cfg w) = None \<and> io (snd (setup_sqlite cfg w)) = drop 3 (io w)
      \<and> new_effects w (snd (setup_sqlite cfg w)) = [SqliteConnect (db cfg), CreateTable, Commit])
   \<and> (failures (take 3 (io w)) \<noteq> [] \<longrightarrow>
      (\<exists>e. fst (setup_sqlite cfg w) = Some e)
      \<and> set (new_effects w (snd (setup_sqlite cfg w)))
          \<subseteq> {SqliteConnect (db cfg), CreateTable, Commit})
   \<and> effects (snd (setup_sqlite cfg w)) = effects w @ new_effects w (snd (setup_sqlite cfg w))"
  by (auto simp: setup_sqlite_def perform_def emit_def new_effects_def failures_def
                 numeral_3_eq_3
           split: list.splits io_outcome.splits)

lemma setup_mqtt_cases:
  "(failures (take 1 (io w)) = [] \<longrightarrow> fst (setup_mqtt cfg w) = None)
   \<and> (failures (take 1 (io w)) \<noteq> [] \<longrightarrow> (\<exists>e. fst (setup_mqtt cfg w) = Some e))
   \<and> LoopStart \<notin> set (new_effects w (snd (setup_mqtt cfg w)))
   \<and> Reconnect \<notin> set (new_effects w (snd (setup_mqtt cfg w)))
   \<and> (\<forall>p t. OpenAppendWrite p t \<notin> set (new_effects w (snd (setup_mqtt cfg w))))
   \<and> length (filter (\<lambda>e. e = Connect (host cfg) (port cfg) 60)
               (new_effects w (snd (setup_mqtt cfg w)))) = 1
   \<and> effects (snd (setup_mqtt cfg w)) = effects w @ new_effects w (snd (setup_mqtt cfg w))"
  by (auto simp: setup_mqtt_def perform_def emit_def new_effects_def failures_def Let_def
           split: list.splits io_outcome.splits option.splits)

lemma uncaught_nonzero: "uncaught e \<noteq> 0"
  by (cases e) (simp_all add: uncaught_def)


lemma main_startup_fault:
  assumes "failures (take 4 (io w)) \<noteq> []"
  shows "(\<exists>n. fst (main cfg evs w) = Exited n \<and> n \<noteq> 0)
       \<and> LoopStart \<notin> set (new_effects w (snd (main cfg evs w)))
       \<and> Reconnect \<notin> set (new_effects w (snd (main cfg evs w)))
       \<and> length (filter (\<lambda>e. e = Connect (host cfg) (port cfg) 60)
                   (new_effects w (snd (main cfg evs w)))) \<le> 1"
proof (cases "failures (take 3 (io w)) = []")
  case False
  with setup_sqlite_cases [of w cfg] obtain e where
    e: "fst (setup_sqlite cfg w) = Some e"
    and sub: "set (new_effects w (snd (setup_sqlite cfg w)))
                \<subseteq> {SqliteConnect (db cfg), CreateTable, Commit}"
    by blast
  have m: "main cfg evs w = (Exited (uncaught e), snd (setup_sqlite cfg w))"
    using e by (cases "setup_sqlite cfg w") (simp add: main_def)
  have "filter (\<lambda>e. e = Connect (host cfg) (port cfg) 60)
          (new_effects w (snd (setup_sqlite cfg w))) = []"
    using sub by (auto simp: filter_empty_conv)
  with sub m show ?thesis
    by (auto simp: uncaught_nonzero)
next
  case True
  define w1 where "w1 = snd (setup_sqlite cfg w)"
  from True setup_sqlite_cases [of w cfg] have
    ok: "fst (setup_sqlite cfg w) = None" and io1: "io w1 = drop 3 (io w)"
    and e1: "new_effects w w1 = [SqliteConnect (db cfg), CreateTable, Commit]"
    and p1: "effects w1 = effects w @ new_effects w w1"
    by (simp_all add: w1_def)
  have "failures (take (3 + 1) (io w)) = failures (take 3 (io w)) @ failures (take 1 (drop 3 (io w)))"
    by (rule failures_take_add)
  with assms True io1 have bad: "failures (take 1 (io w1)) \<noteq> []"
    by simp
  define w2 where "w2 = snd (setup_mqtt cfg w1)"
  from bad setup_mqtt_cases [of w1 cfg] obtain e where
    e: "fst (setup_mqtt cfg w1) = Some e"
    and no: "LoopStart \<notin> set (new_effects w1 w2)" "Reconnect \<notin> set (new_effects w1 w2)"
    and one: "length (filter (\<lambda>e. e = Connect (host cfg) (port cfg) 60)
                       (new_effects w1 w2)) = 1"
    and p2: "effects w2 = effects w1 @ new_effects w1 w2"
    unfolding w2_def by blast
  have m: "main cfg evs w = (Exited (uncaught e), w2)"
    using ok e
    by (cases "setup_sqlite cfg w"; cases "setup_mqtt cfg w1")
       (simp add: main_def w1_def w2_def)
  note both = new_effects_append [OF p1 p2]
  show ?thesis
    using m no one e1 by (simp add: both(1) uncaught_nonzero)
qed

lemma main_startup_ok:
  assumes "failures (take 4 (io w)) = []"
  shows "fst (main cfg [] w) = Running
       \<and> (\<forall>p t. OpenAppendWrite p t \<notin> set (new_effects w (snd (main cfg [] w))))"
proof -
  define w1 where "w1 = snd (setup_sqlite cfg w)"
  define w2 where "w2 = snd (setup_mqtt cfg w1)"
  have split: "failures (take (3 + 1) (io w))
      = failures (take 3 (io w)) @ failures (take 1 (drop 3 (io w)))"
    by (rule failures_take_add)
  with assms have t3: "failures (take 3 (io w)) = []"
    and t1: "failures (take 1 (drop 3 (io w))) = []" by simp_all
  from t3 setup_sqlite_cases [of w cfg] have
    ok: "fst (setup_sqlite cfg w) = None" and io1: "io w1 = drop 3 (io w)"
    and e1: "new_effects w w1 = [SqliteConnect (db cfg), CreateTable, Commit]"
    and p1: "effects w1 = effects w @ new_effects w w1"
    by (simp_all add: w1_def)
  from t1 io1 setup_mqtt_cases [of w1 cfg] have
    ok2: "fst (setup_mqtt cfg w1) = None"
    and no: "\<forall>p t. OpenAppendWrite p t \<notin> set (new_effects w1 w2)"
    and p2: "effects w2 = effects w1 @ new_effects w1 w2"
    by (simp_all add: w2_def)
  have m: "main cfg [] w = (Running, emit (Log INFO Listening) (emit LoopStart w2))"
    using ok ok2
    by (cases "setup_sqlite cfg w"; cases "setup_mqtt cfg w1")
       (simp add: main_def w1_def w2_def)
  note both = new_effects_append [OF p1 p2]
  have "new_effects w (emit (Log INFO Listening) (emit LoopStart w2))
          = new_effects w w2 @ [LoopStart, Log INFO Listening]"
  proof -
    have "length (effects w) \<le> length (effects w2)"
      using both(2) by (metis le_add1 length_append)
    then show ?thesis by (simp add: new_effects_def emit_def)
  qed
  with m no e1 show ?thesis
    by (simp add: both(1))
qed

lemma setup_mqtt_io: "io (snd (setup_mqtt cfg w)) = drop 1 (io w)"
  by (cases "io w")
     (auto simp: setup_mqtt_def perform_def emit_def Let_def
           split: option.splits io_outcome.splits)

lemma main_enters_loop:
  assumes "failures (take 4 (io w)) = []"
  shows "\<exists>w3. main cfg evs w = main_loop cfg evs w3 \<and> io w3 = drop 4 (io w)"
proof -
  define w1 where "w1 = snd (setup_sqlite cfg w)"
  define w2 where "w2 = snd (setup_mqtt cfg w1)"
  have "failures (take (3 + 1) (io w))
      = failures (take 3 (io w)) @ failures (take 1 (drop 3 (io w)))"
    by (rule failures_take_add)
  with assms have t3: "failures (take 3 (io w)) = []"
    and t1: "failures (take 1 (drop 3 (io w))) = []" by simp_all
  from t3 setup_sqlite_cases [of w cfg] have
    ok: "fst (setup_sqlite cfg w) = None" and io1: "io w1 = drop 3 (io w)"
    by (simp_all add: w1_def)
  from t1 io1 setup_mqtt_cases [of w1 cfg] have ok2: "fst (setup_mqtt cfg w1) = None"
    by simp
  have io2: "io w2 = drop 4 (io w)"
    using io1 setup_mqtt_io [of cfg w1] by (simp add: w2_def)
  have "main cfg evs w = main_loop cfg evs (emit (Log INFO Listening) (emit LoopStart w2))"
    using ok ok2
    by (cases "setup_sqlite cfg w"; cases "setup_mqtt cfg w1")
       (simp add: main_def w1_def w2_def)
  moreover have "io (emit (Log INFO Listening) (emit LoopStart w2)) = drop 4 (io w)"
    using io2 by (simp add: emit_def)
  ultimately show ?thesis by blast
qed

lemma main_keeps_running:
  assumes "failures (take 4 (io w)) = []" and "Raises KeyboardInterrupt \<notin> set (io w)"
    and "Sigint \<notin> set evs"
  shows "fst (main cfg evs w) = Running"
proof -
  from main_enters_loop [OF assms(1), of cfg evs] obtain w3 where
    m: "main cfg evs w = main_loop cfg evs w3" and io3: "io w3 = drop 4 (io w)"
    by blast
  have "Raises KeyboardInterrupt \<notin> set (io w3)"
    using assms(2) io3 by (simp add: no_interrupt_drop)
  from main_loop_keeps_running [OF this assms(3)] m show ?thesis by simp
qed

lemma save_to_json_failure:
  assumes "io w = Raises (Exception x) # rest"
  shows "fst (save_to_json cfg m w) = None
       \<and> new_effects w (snd (save_to_json cfg m w)) =
           [OpenAppendWrite (json cfg) (json_line m), Log ERROR (JsonError (Exception x))]
       \<and> json_file (snd (save_to_json cfg m w)) = json_file w"
  using assms
  by (simp add: save_to_json_def perform_def emit_def except_Exception_def new_effects_def)

text \<open>
  C6, as the code has it. When one of the four calls of the start-up raises (opening the
  database, creating the table, its commit, the client's \<^verbatim>\<open>connect\<close>), nothing
  catches the exception: the process ends with an exit status that is not 0, before the
  network loop is started, without a reconnect and with at most the one \<^verbatim>\<open>connect\<close>
  call. When none of them raises the process reaches its loop, and the start-up has not
  touched the JSON file. A connection acknowledged with a reason code other than 0 is
  answered by one error line and nothing else. Once the start-up is through, the process
  is still running after any run of deliveries, connection events and turns of the loop,
  whatever calls fail with an exception of the \<^verbatim>\<open>Exception\<close> hierarchy; in
  particular an append to the JSON file that raises ends \<^verbatim>\<open>save_to_json\<close> normally,
  with one error line for that record and the file as it was.
\<close>

theorem startup_faults_are_fatal:
  "(failures (take 4 (io w)) \<noteq> [] \<longrightarrow>
      (\<exists>n. fst (main cfg evs w) = Exited n \<and> n \<noteq> 0)
    \<and> LoopStart \<notin> set (new_effects w (snd (main cfg evs w)))
    \<and> Reconnect \<notin> set (new_effects w (snd (main cfg evs w)))
    \<and> length (filter (\<lambda>e. e = Connect (host cfg) (port cfg) 60)
                (new_effects w (snd (main cfg evs w)))) \<le> 1)
   \<and> (failures (take 4 (io w)) = [] \<longrightarrow>
        fst (main cfg [] w) = Running
      \<and> (\<forall>p t. OpenAppendWrite p t \<notin> set (new_effects w (snd (main cfg [] w)))))
   \<and> (rc \<noteq> 0 \<longrightarrow> new_effects w (on_connect rc w) = [Log ERROR (ConnectionFailed rc)])
   \<and> (failures (take 4 (io w)) = [] \<and> Raises KeyboardInterrupt \<notin> set (io w)
        \<and> Sigint \<notin> set evs \<longrightarrow>
        fst (main cfg evs w) = Running)
   \<and> (io w = Raises (Exception x) # rest \<longrightarrow>
        fst (save_to_json cfg m w) = None
      \<and> new_effects w (snd (save_to_json cfg m w)) =
          [OpenAppendWrite (json cfg) (json_line m), Log ERROR (JsonError (Exception x))]
      \<and> json_file (snd (save_to_json cfg m w)) = json_file w)"
proof (intro conjI impI)
  assume "failures (take 4 (io w)) = [] \<and> Raises KeyboardInterrupt \<notin> set (io w)
            \<and> Sigint \<notin> set evs"
  then show "fst (main cfg evs w) = Running"
    using main_keeps_running [of w evs cfg] by simp
next
  assume "rc \<noteq> 0"
  then show "new_effects w (on_connect rc w) = [Log ERROR (ConnectionFailed rc)]"
    by (simp add: on_connect_def emit_def new_effects_def)
qed (use main_startup_fault [of w cfg evs] main_startup_ok [of w cfg]
         save_to_json_failure [of w x rest cfg m] in simp_all)

theorem startup_faults_are_fatal_witness:
  "failures (take 4 (io (fresh\<lparr>io := [Succeeds, Succeeds, Succeeds,
                                       Raises (Exception ''Connection refused'')]\<rparr>))) \<noteq> []
   \<and> (\<exists>n. fst (main cfg0 [Deliver msg0 now0, Iterate]
                 (fresh\<lparr>io := [Succeeds, Succeeds, Succeeds,
                                Raises (Exception ''Connection refused'')]\<rparr>)) = Exited n
          \<and> n \<noteq> 0)
   \<and> Reconnect \<notin> set (new_effects
         (fresh\<lparr>io := [Succeeds, Succeeds, Succeeds,
                        Raises (Exception ''Connection refused'')]\<rparr>)
         (snd (main cfg0 [Deliver msg0 now0, Iterate]
                 (fresh\<lparr>io := [Succeeds, Succeeds, Succeeds,
                                Raises (Exception ''Connection refused'')]\<rparr>))))
   \<and> failures (take 4 (io fresh)) = []
   \<and> fst (main cfg0 [] fresh) = Running
   \<and> new_effects fresh (on_connect 5 fresh) = [Log ERROR (ConnectionFailed 5)]
   \<and> failures (take 4 (io (fresh\<lparr>io := [Succeeds, Succeeds, Succeeds, Succeeds, Succeeds,
                              Succeeds, Raises (Exception ''Permission denied'')]\<rparr>))) = []
   \<and> fst (main cfg0 [Deliver msg0 now0, Iterate]
           (fresh\<lparr>io := [Succeeds, Succeeds, Succeeds, Succeeds, Succeeds,
                          Succeeds, Raises (Exception ''Permission denied'')]\<rparr>)) = Running
   \<and> new_effects (fresh\<lparr>io := [Raises (Exception ''Permission denied'')]\<rparr>)
        (snd (save_to_json cfg0 rec0
               (fresh\<lparr>io := [Raises (Exception ''Permission denied'')]\<rparr>))) =
        [OpenAppendWrite (json cfg0) (json_line rec0),
         Log ERROR (JsonError (Exception ''Permission denied''))]"
proof -
  let ?bad = "fresh\<lparr>io := [Succeeds, Succeeds, Succeeds,
                            Raises (Exception ''Connection refused'')]\<rparr>"
  let ?ro = "fresh\<lparr>io := [Succeeds, Succeeds, Succeeds, Succeeds, Succeeds,
                           Succeeds, Raises (Exception ''Permission denied'')]\<rparr>"
  let ?one = "fresh\<lparr>io := [Raises (Exception ''Permission denied'')]\<rparr>"
  have a: "failures (take 4 (io ?bad)) \<noteq> []"
    by (simp add: failures_def)
  have b: "failures (take 4 (io fresh)) = []"
    by (simp add: failures_def fresh_def)
  have c: "(5::int) \<noteq> 0" by simp
  have d: "failures (take 4 (io ?ro)) = [] \<and> Raises KeyboardInterrupt \<notin> set (io ?ro)
             \<and> Sigint \<notin> set [Deliver msg0 now0, Iterate]"
    by (simp add: failures_def)
  have e: "io ?one = Raises (Exception ''Permission denied'') # []" by simp
  note t1 = startup_faults_are_fatal [of ?bad cfg0 "[Deliver msg0 now0, Iterate]" 5]
  note t2 = startup_faults_are_fatal [of fresh cfg0 "[]" 5]
  note t3 = startup_faults_are_fatal [of ?ro cfg0 "[Deliver msg0 now0, Iterate]" 5]
  note t4 = startup_faults_are_fatal
    [of ?one cfg0 "[]" 5 "''Permission denied''" "[]" rec0]
  from t1 a have "(\<exists>n. fst (main cfg0 [Deliver msg0 now0, Iterate] ?bad) = Exited n \<and> n \<noteq> 0)
      \<and> Reconnect \<notin> set (new_effects ?bad (snd (main cfg0 [Deliver msg0 now0, Iterate] ?bad)))"
    by blast
  moreover from t2 b c have "fst (main cfg0 [] fresh) = Running
      \<and> new_effects fresh (on_connect 5 fresh) = [Log ERROR (ConnectionFailed 5)]"
    by blast
  moreover from t3 d have "fst (main cfg0 [Deliver msg0 now0, Iterate] ?ro) = Running"
    by blast
  moreover from t4 e have "new_effects ?one (snd (save_to_json cfg0 rec0 ?one)) =
        [OpenAppendWrite (json cfg0) (json_line rec0),
         Log ERROR (JsonError (Exception ''Permission denied''))]"
    by blast
  ultimately show ?thesis using a b d by blast
qed

text \<open>
  The process keeps running when the JSON file cannot be written (the failed append is
  logged), and when the broker refuses the connection: the refusal is logged, and the
  disconnect that follows goes through the reconnect path.
\<close>

theorem unopenable_file_and_refused_connection_are_not_fatal:
  "fst (main cfg0 [Deliver msg0 now0, Iterate]
          (fresh\<lparr>io := [Succeeds, Succeeds, Succeeds, Succeeds, Succeeds, Succeeds,
                         Raises (Exception ''Permission denied'')]\<rparr>)) = Running
   \<and> Log ERROR (JsonError (Exception ''Permission denied''))
       \<in> set (effects (snd (main cfg0 [Deliver msg0 now0, Iterate]
          (fresh\<lparr>io := [Succeeds, Succeeds, Succeeds, Succeeds, Succeeds, Succeeds,
                         Raises (Exception ''Permission denied'')]\<rparr>))))
   \<and> fst (main cfg0 [ConnAck 5, Disconnected 5] fresh) = Running
   \<and> Reconnect \<in> set (effects (snd (main cfg0 [ConnAck 5, Disconnected 5] fresh)))"
  by (simp add: main_def setup_sqlite_def setup_mqtt_def perform_def emit_def cfg0_def
                fresh_def on_message_msg0 loop_iteration_def drain_eq persist_batch_def
                save_to_sqlite_batch_def save_to_json_def except_Exception_def Let_def
                on_connect_def on_disconnect_def)

end
